theory Spec2Isabelle
  imports Main
begin

section \<open>The value tree\<close>

text \<open>
  \<^verbatim>\<open>json.load\<close> produces \<^verbatim>\<open>None\<close>, \<^verbatim>\<open>bool\<close>, \<^verbatim>\<open>int\<close>, \<^verbatim>\<open>float\<close>, \<^verbatim>\<open>str\<close>,
  \<^verbatim>\<open>list\<close> and \<^verbatim>\<open>dict\<close> (string keys, insertion order kept). The analyzer never
  computes with a float, it only asks for its type and its printed form, so the float
  type stays a parameter \<open>'f\<close>. A dict is an association list in insertion order; the
  keys of a dict are distinct, and no property below needs that as an assumption.
\<close>

datatype 'f jvalue =
    JNull
  | JBool bool
  | JInt int
  | JFloat 'f
  | JStr string
  | JArray "'f jvalue list"
  | JObject "(string \<times> 'f jvalue) list"

section \<open>validate\_schema\<close>

text \<open>
  The result dict of \<^verbatim>\<open>validate_schema\<close>. The key \<^verbatim>\<open>'error'\<close> exists only when the
  function stored it: \<open>None\<close> is the absent key.
\<close>

record validation =
  valid :: bool
  missing_keys :: "string list"
  found_keys :: "string list"
  error :: "string option"

text \<open>The loop \<^verbatim>\<open>for key in required_keys\<close>; \<open>d\<close> is \<^verbatim>\<open>self.data\<close>, a dict.\<close>

fun validate_loop :: "(string \<times> 'f jvalue) list \<Rightarrow> string list \<Rightarrow> validation \<Rightarrow> validation" where
  "validate_loop d [] results = results"
| "validate_loop d (key # keys) results =
     validate_loop d keys
       (if key \<in> fst ` set d
        then results\<lparr>found_keys := found_keys results @ [key]\<rparr>
        else results\<lparr>missing_keys := missing_keys results @ [key], valid := False\<rparr>)"

definition validate_schema :: "'f jvalue \<Rightarrow> string list \<Rightarrow> validation" where
  "validate_schema data required_keys =
     (let results = \<lparr>valid = True, missing_keys = [], found_keys = [], error = None\<rparr>
      in case data of
           JObject d \<Rightarrow> validate_loop d required_keys results
         | _ \<Rightarrow> results\<lparr>valid := False,
                         error := Some ''Root must be an object for schema validation''\<rparr>)"

section \<open>analyze\_structure\<close>

text \<open>
  \<^verbatim>\<open>stats['type_counts']\<close> is a \<^verbatim>\<open>collections.Counter\<close>: a dict from labels to
  counts, in insertion order, that reads a missing label as 0.
\<close>

type_synonym counter = "(string \<times> int) list"

text \<open>\<^verbatim>\<open>c[k] += n\<close>: an existing entry is increased in place, a new one goes last.\<close>

fun counter_add :: "string \<Rightarrow> int \<Rightarrow> counter \<Rightarrow> counter" where
  "counter_add k n [] = [(k, n)]"
| "counter_add k n ((k', m) # c) =
     (if k = k' then (k', m + n) # c else (k', m) # counter_add k n c)"

text \<open>\<^verbatim>\<open>c.update(other)\<close>: every entry of \<open>other\<close>, in its order, is added to \<open>c\<close>.\<close>

fun counter_update :: "counter \<Rightarrow> counter \<Rightarrow> counter" where
  "counter_update c [] = c"
| "counter_update c ((k, n) # other) = counter_update (counter_add k n c) other"

text \<open>\<^verbatim>\<open>c[k]\<close>, which is 0 for a label that has no entry.\<close>

definition counter_get :: "counter \<Rightarrow> string \<Rightarrow> int" where
  "counter_get c k = (case map_of c k of None \<Rightarrow> 0 | Some n \<Rightarrow> n)"

record stats =
  type_counts :: counter
  max_depth :: int
  total_keys :: int
  null_values :: int
  arrays :: int
  objects :: int

text \<open>The dict every call of \<^verbatim>\<open>recursive_analyze\<close> starts from.\<close>

definition new_stats :: "int \<Rightarrow> stats" where
  "new_stats maxd =
     \<lparr>type_counts = [], max_depth = maxd, total_keys = 0, null_values = 0,
      arrays = 0, objects = 0\<rparr>"

text \<open>The inner loop \<^verbatim>\<open>for k, v in child_stats.items()\<close>.\<close>

definition merge_child :: "stats \<Rightarrow> stats \<Rightarrow> stats" where
  "merge_child st child =
     st\<lparr>type_counts := counter_update (type_counts st) (type_counts child),
        max_depth := max (max_depth st) (max_depth child),
        total_keys := total_keys st + total_keys child,
        null_values := null_values st + null_values child,
        arrays := arrays st + arrays child,
        objects := objects st + objects child\<rparr>"

text \<open>\<^verbatim>\<open>type(obj).__name__\<close>.\<close>

fun type_name :: "'f jvalue \<Rightarrow> string" where
  "type_name JNull = ''NoneType''"
| "type_name (JBool b) = ''bool''"
| "type_name (JInt i) = ''int''"
| "type_name (JFloat f) = ''float''"
| "type_name (JStr s) = ''str''"
| "type_name (JArray xs) = ''list''"
| "type_name (JObject d) = ''dict''"

text \<open>
  \<open>analyze_items\<close> is the loop over \<^verbatim>\<open>obj.items()\<close> and \<open>analyze_elems\<close> the loop over
  the items of a list; both carry the \<^verbatim>\<open>stats\<close> dict of the enclosing call.
\<close>

fun recursive_analyze :: "'f jvalue \<Rightarrow> int \<Rightarrow> int \<Rightarrow> stats"
  and analyze_items :: "(string \<times> 'f jvalue) list \<Rightarrow> int \<Rightarrow> int \<Rightarrow> stats \<Rightarrow> stats"
  and analyze_elems :: "'f jvalue list \<Rightarrow> int \<Rightarrow> int \<Rightarrow> stats \<Rightarrow> stats" where
  "recursive_analyze (JObject d) depth maxd =
     analyze_items d depth maxd
       ((new_stats maxd)\<lparr>objects := objects (new_stats maxd) + 1,
                         total_keys := total_keys (new_stats maxd) + int (length d)\<rparr>)"
| "recursive_analyze (JArray xs) depth maxd =
     analyze_elems xs depth maxd
       ((new_stats maxd)\<lparr>arrays := arrays (new_stats maxd) + 1,
                         type_counts := counter_add ''array'' 1 (type_counts (new_stats maxd))\<rparr>)"
| "recursive_analyze v depth maxd =
     (new_stats maxd)\<lparr>type_counts := counter_add (type_name v) 1 (type_counts (new_stats maxd))\<rparr>"
| "analyze_items [] depth maxd st = st"
| "analyze_items ((key, v) # rest) depth maxd st =
     analyze_items rest depth maxd
       (merge_child
          (case v of JNull \<Rightarrow> st\<lparr>null_values := null_values st + 1\<rparr> | _ \<Rightarrow> st)
          (recursive_analyze v (depth + 1) (max maxd (depth + 1))))"
| "analyze_elems [] depth maxd st = st"
| "analyze_elems (item # rest) depth maxd st =
     analyze_elems rest depth maxd
       (merge_child st (recursive_analyze item (depth + 1) (max maxd (depth + 1))))"

text \<open>The call \<^verbatim>\<open>recursive_analyze(self.data)\<close> with both defaults.\<close>

definition analyze_structure :: "'f jvalue \<Rightarrow> stats" where
  "analyze_structure data = recursive_analyze data 0 0"

section \<open>find\_duplicates\<close>

text \<open>
  \<^verbatim>\<open>check_array\<close> keys every item by a string: \<^verbatim>\<open>json.dumps(item, sort_keys=True)\<close>
  for a scalar and \<^verbatim>\<open>str(item)\<close> for a list or a dict. Both are functions of the Python
  library. Their output on \<^verbatim>\<open>None\<close>, booleans, integers and the brackets of
  containers is written out below; how a string is quoted and escaped and how a float is
  printed, by \<^verbatim>\<open>json.dumps\<close> and by \<^verbatim>\<open>repr\<close>, are parameters.
\<close>

record 'f pylib =
  dumps_str :: "string \<Rightarrow> string"
  dumps_float :: "'f \<Rightarrow> string"
  repr_str :: "string \<Rightarrow> string"
  repr_float :: "'f \<Rightarrow> string"

text \<open>Decimal digits of a natural number, as in \<^verbatim>\<open>f"{idx}"\<close>.\<close>

fun str_nat :: "nat \<Rightarrow> string" where
  "str_nat n =
     (if n < 10 then [''0123456789'' ! n]
      else str_nat (n div 10) @ [''0123456789'' ! (n mod 10)])"

definition str_int :: "int \<Rightarrow> string" where
  "str_int i = (if i < 0 then ''-'' @ str_nat (nat (- i)) else str_nat (nat i))"

text \<open>\<^verbatim>\<open>sep.join(parts)\<close>.\<close>

fun join :: "string \<Rightarrow> string list \<Rightarrow> string" where
  "join sep [] = []"
| "join sep [x] = x"
| "join sep (x # y # ys) = x @ sep @ join sep (y # ys)"

text \<open>\<^verbatim>\<open>str(item)\<close>, which for the built-in types is \<^verbatim>\<open>repr(item)\<close>.\<close>

fun py_str :: "'f pylib \<Rightarrow> 'f jvalue \<Rightarrow> string" where
  "py_str lib JNull = ''None''"
| "py_str lib (JBool b) = (if b then ''True'' else ''False'')"
| "py_str lib (JInt i) = str_int i"
| "py_str lib (JFloat f) = repr_float lib f"
| "py_str lib (JStr s) = repr_str lib s"
| "py_str lib (JArray xs) = ''['' @ join '', '' (map (py_str lib) xs) @ '']''"
| "py_str lib (JObject d) =
     ''{'' @ join '', '' (map (\<lambda>kv. repr_str lib (fst kv) @ '': '' @ py_str lib (snd kv)) d)
       @ ''}''"

text \<open>
  The key \<^verbatim>\<open>item_str\<close>: \<^verbatim>\<open>str(item)\<close> for a list or a dict, \<^verbatim>\<open>json.dumps\<close> for
  everything else.
\<close>

fun item_str :: "'f pylib \<Rightarrow> 'f jvalue \<Rightarrow> string" where
  "item_str lib (JArray xs) = py_str lib (JArray xs)"
| "item_str lib (JObject d) = py_str lib (JObject d)"
| "item_str lib JNull = ''null''"
| "item_str lib (JBool b) = (if b then ''true'' else ''false'')"
| "item_str lib (JInt i) = str_int i"
| "item_str lib (JFloat f) = dumps_float lib f"
| "item_str lib (JStr s) = dumps_str lib s"

text \<open>One entry of the list \<^verbatim>\<open>duplicates\<close>; \<^verbatim>\<open>indices\<close> is a two-element list.\<close>

record 'f duplicate =
  path :: string
  dup_value :: "'f jvalue"
  indices :: "nat list"

text \<open>
  The loop \<^verbatim>\<open>for idx, item in enumerate(arr)\<close>: \<open>idx\<close> is the running index, \<open>seen\<close>
  the local dict and \<open>duplicates\<close> the list of the enclosing \<^verbatim>\<open>find_duplicates\<close>, which
  the loop appends to.
\<close>

fun check_loop :: "'f pylib \<Rightarrow> string \<Rightarrow> nat \<Rightarrow> 'f jvalue list \<Rightarrow> (string \<rightharpoonup> nat)
    \<Rightarrow> 'f duplicate list \<Rightarrow> 'f duplicate list" where
  "check_loop lib p idx [] seen duplicates = duplicates"
| "check_loop lib p idx (item # rest) seen duplicates =
     (case seen (item_str lib item) of
        Some first \<Rightarrow>
          check_loop lib p (idx + 1) rest seen
            (duplicates @ [\<lparr>path = p, dup_value = item, indices = [first, idx]\<rparr>])
      | None \<Rightarrow>
          check_loop lib p (idx + 1) rest (seen(item_str lib item \<mapsto> idx)) duplicates)"

fun check_array :: "'f pylib \<Rightarrow> 'f jvalue \<Rightarrow> string \<Rightarrow> 'f duplicate list \<Rightarrow> 'f duplicate list" where
  "check_array lib (JArray xs) p duplicates = check_loop lib p 0 xs Map.empty duplicates"
| "check_array lib arr p duplicates = duplicates"

text \<open>
  \<open>traverse_items\<close> is the loop over \<^verbatim>\<open>obj.items()\<close>, \<open>traverse_elems\<close> the loop over
  \<^verbatim>\<open>enumerate(obj)\<close> with its running index.
\<close>

fun traverse :: "'f pylib \<Rightarrow> 'f jvalue \<Rightarrow> string \<Rightarrow> 'f duplicate list \<Rightarrow> 'f duplicate list"
  and traverse_items :: "'f pylib \<Rightarrow> (string \<times> 'f jvalue) list \<Rightarrow> string
    \<Rightarrow> 'f duplicate list \<Rightarrow> 'f duplicate list"
  and traverse_elems :: "'f pylib \<Rightarrow> nat \<Rightarrow> 'f jvalue list \<Rightarrow> string
    \<Rightarrow> 'f duplicate list \<Rightarrow> 'f duplicate list" where
  "traverse lib (JObject d) p duplicates = traverse_items lib d p duplicates"
| "traverse lib (JArray xs) p duplicates =
     traverse_elems lib 0 xs p (check_array lib (JArray xs) p duplicates)"
| "traverse lib obj p duplicates = duplicates"
| "traverse_items lib [] p duplicates = duplicates"
| "traverse_items lib ((key, v) # rest) p duplicates =
     traverse_items lib rest p (traverse lib v (p @ ''.'' @ key) duplicates)"
| "traverse_elems lib idx [] p duplicates = duplicates"
| "traverse_elems lib idx (item # rest) p duplicates =
     traverse_elems lib (idx + 1) rest p
       (traverse lib item (p @ ''['' @ str_nat idx @ '']'') duplicates)"

definition find_duplicates :: "'f pylib \<Rightarrow> 'f jvalue \<Rightarrow> 'f duplicate list" where
  "find_duplicates lib data = traverse lib data ''root'' []"

text \<open>
  An instance of the library parameters for evaluating examples. It carries a float as
  its printed form and quotes a string without escaping, which is what Python prints
  for a string of letters and digits.
\<close>

definition sample_lib :: "string pylib" where
  "sample_lib =
     \<lparr>dumps_str = (\<lambda>s. [CHR 0x22] @ s @ [CHR 0x22]), dumps_float = (\<lambda>f. f),
      repr_str = (\<lambda>s. [CHR 0x27] @ s @ [CHR 0x27]), repr_float = (\<lambda>f. f)\<rparr>"

section \<open>Notions the properties are stated with\<close>

fun is_scalar :: "'f jvalue \<Rightarrow> bool" where
  "is_scalar (JArray xs) = False"
| "is_scalar (JObject d) = False"
| "is_scalar v = True"

fun is_list :: "'f jvalue \<Rightarrow> bool" where
  "is_list (JArray xs) = True"
| "is_list v = False"

fun is_dict :: "'f jvalue \<Rightarrow> bool" where
  "is_dict (JObject d) = True"
| "is_dict v = False"

text \<open>The number of nodes of a tree that satisfy \<open>P\<close>, the root included.\<close>

fun count_nodes :: "('f jvalue \<Rightarrow> bool) \<Rightarrow> 'f jvalue \<Rightarrow> nat" where
  "count_nodes P (JArray xs) = (if P (JArray xs) then 1 else 0) + (\<Sum>x\<leftarrow>xs. count_nodes P x)"
| "count_nodes P (JObject d) =
     (if P (JObject d) then 1 else 0) + (\<Sum>kv\<leftarrow>d. count_nodes P (snd kv))"
| "count_nodes P v = (if P v then 1 else 0)"

definition node_count :: "'f jvalue \<Rightarrow> nat" where
  "node_count v = count_nodes (\<lambda>_. True) v"

text \<open>The number of object members, anywhere in the tree, whose value is null.\<close>

fun null_fields :: "'f jvalue \<Rightarrow> nat" where
  "null_fields (JObject d) =
     (\<Sum>kv\<leftarrow>d. (if snd kv = JNull then 1 else 0) + null_fields (snd kv))"
| "null_fields (JArray xs) = (\<Sum>x\<leftarrow>xs. null_fields x)"
| "null_fields v = 0"

text \<open>The sum of the counts of all labels except \<^verbatim>\<open>array\<close>.\<close>

definition scalar_total :: "counter \<Rightarrow> int" where
  "scalar_total c = sum_list (map snd (filter (\<lambda>kn. fst kn \<noteq> ''array'') c))"

definition counted :: "stats \<Rightarrow> int" where
  "counted st = scalar_total (type_counts st) + arrays st + objects st"

text \<open>
  A position in the tree is the list of steps from the root: into the element at an
  index of an array, or into the value under a key of an object. \<open>path_str\<close> is the
  text of a position.
\<close>

datatype step = AtIndex nat | AtKey string

fun step_str :: "step \<Rightarrow> string" where
  "step_str (AtIndex i) = ''['' @ str_nat i @ '']''"
| "step_str (AtKey key) = ''.'' @ key"

definition path_str :: "step list \<Rightarrow> string" where
  "path_str steps = ''root'' @ concat (map step_str steps)"

text \<open>
  The arrays of a tree in pre-order, each with its position: an array comes before the
  arrays inside its elements, and the children of a container come in their order.
\<close>

fun arrays_preorder :: "step list \<Rightarrow> 'f jvalue \<Rightarrow> (step list \<times> 'f jvalue list) list"
  and arrays_in_items :: "step list \<Rightarrow> (string \<times> 'f jvalue) list
    \<Rightarrow> (step list \<times> 'f jvalue list) list"
  and arrays_in_elems :: "step list \<Rightarrow> nat \<Rightarrow> 'f jvalue list
    \<Rightarrow> (step list \<times> 'f jvalue list) list" where
  "arrays_preorder steps (JArray xs) = (steps, xs) # arrays_in_elems steps 0 xs"
| "arrays_preorder steps (JObject d) = arrays_in_items steps d"
| "arrays_preorder steps v = []"
| "arrays_in_items steps [] = []"
| "arrays_in_items steps ((key, v) # rest) =
     arrays_preorder (steps @ [AtKey key]) v @ arrays_in_items steps rest"
| "arrays_in_elems steps i [] = []"
| "arrays_in_elems steps i (x # rest) =
     arrays_preorder (steps @ [AtIndex i]) x @ arrays_in_elems steps (i + 1) rest"

text \<open>
  The records of one array, in closed form: one record for every index \<open>j\<close> whose key
  already occurs before \<open>j\<close>, in increasing order of \<open>j\<close>, pairing \<open>j\<close> with the index of
  the first item that has the same key.
\<close>

definition array_records :: "'f pylib \<Rightarrow> 'f jvalue list \<Rightarrow> string \<Rightarrow> 'f duplicate list" where
  "array_records lib xs p =
     (let ks = map (item_str lib) xs
      in map (\<lambda>j. \<lparr>path = p, dup_value = xs ! j,
                    indices = [length (takeWhile (\<lambda>k. k \<noteq> ks ! j) ks), j]\<rparr>)
           (filter (\<lambda>j. ks ! j \<in> set (take j ks)) [0..<length xs]))"

text \<open>The dict \<^verbatim>\<open>seen\<close> after the items with keys \<open>ks\<close>: every key with its first index.\<close>

definition seen_of :: "string list \<Rightarrow> (string \<rightharpoonup> nat)" where
  "seen_of ks =
     (\<lambda>s. if s \<in> set ks then Some (length (takeWhile (\<lambda>k. k \<noteq> s) ks)) else None)"

definition record_at :: "'f pylib \<Rightarrow> 'f jvalue list \<Rightarrow> string \<Rightarrow> nat \<Rightarrow> 'f duplicate" where
  "record_at lib xs p j =
     \<lparr>path = p, dup_value = xs ! j,
      indices = [length (takeWhile (\<lambda>k. k \<noteq> item_str lib (xs ! j)) (map (item_str lib) xs)), j]\<rparr>"

definition repeat_at :: "'f pylib \<Rightarrow> 'f jvalue list \<Rightarrow> nat \<Rightarrow> bool" where
  "repeat_at lib xs j = (item_str lib (xs ! j) \<in> set (take j (map (item_str lib) xs)))"

definition records_of :: "'f pylib \<Rightarrow> (step list \<times> 'f jvalue list) list \<Rightarrow> 'f duplicate list" where
  "records_of lib as = concat (map (\<lambda>(steps, xs). array_records lib xs (path_str steps)) as)"

declare str_nat.simps [simp del]

section \<open>Properties of validate\_schema\<close>

lemma validate_loop_found:
  "found_keys (validate_loop d keys r) = found_keys r @ filter (\<lambda>k. k \<in> fst ` set d) keys"
  by (induction keys arbitrary: r) simp_all

lemma validate_loop_missing:
  "missing_keys (validate_loop d keys r) = missing_keys r @ filter (\<lambda>k. k \<notin> fst ` set d) keys"
  by (induction keys arbitrary: r) simp_all

lemma validate_loop_valid:
  "valid (validate_loop d keys r) = (valid r \<and> filter (\<lambda>k. k \<notin> fst ` set d) keys = [])"
  by (induction keys arbitrary: r) simp_all

lemma validate_loop_error:
  "error (validate_loop d keys r) = error r"
  by (induction keys arbitrary: r) simp_all

text \<open>
  Claim C8. On an object root the required keys are split in their given order: the keys
  of the object go to \<open>found_keys\<close>, the others to \<open>missing_keys\<close>, each occurrence of a
  repeated key on its own, and \<open>valid\<close> holds exactly when nothing is missing. On
  \<^verbatim>\<open>{"a": 1}\<close> with \<^verbatim>\<open>["a", "b"]\<close> the result is invalid, found \<^verbatim>\<open>["a"]\<close>, missing
  \<^verbatim>\<open>["b"]\<close>.
\<close>

theorem validate_schema_partition:
  "found_keys (validate_schema (JObject d) ks) = filter (\<lambda>k. k \<in> fst ` set d) ks
   \<and> missing_keys (validate_schema (JObject d) ks) = filter (\<lambda>k. k \<notin> fst ` set d) ks
   \<and> valid (validate_schema (JObject d) ks) = (missing_keys (validate_schema (JObject d) ks) = [])
   \<and> validate_schema (JObject [(''a'', JInt 1)]) [''a'', ''b'']
       = \<lparr>valid = False, missing_keys = [''b''], found_keys = [''a''], error = None\<rparr>"
  by (simp add: validate_schema_def validate_loop_found validate_loop_missing
      validate_loop_valid)

text \<open>
  Claim C10. On an object root the result carries no \<^verbatim>\<open>error\<close> entry, whatever keys
  are missing; an \<^verbatim>\<open>error\<close> entry is there exactly when the root is not an object.
\<close>

theorem validate_schema_error_absent:
  "error (validate_schema (JObject d) ks) = None
   \<and> (error (validate_schema v ks) = None) = (\<exists>d'. v = JObject d')"
  by (cases v) (simp_all add: validate_schema_def validate_loop_error)

text \<open>
  Claim C2, as the spec words it: a root that is not an object gives the message
  \<^verbatim>\<open>root must be an object\<close>. The code stores a longer message, so the result on
  \<^verbatim>\<open>[1, 2]\<close> is not the one the claim gives.
\<close>

theorem validate_schema_message_counterexample:
  "validate_schema (JArray [JInt 1, JInt 2]) [''a'']
     \<noteq> \<lparr>valid = False, missing_keys = [], found_keys = [],
         error = Some ''root must be an object''\<rparr>"
  by (simp add: validate_schema_def)

text \<open>
  Claim C2, amended. For a root that is not an object and any list of required keys the
  result is invalid, both key lists are empty and the \<^verbatim>\<open>error\<close> entry is
  \<^verbatim>\<open>Root must be an object for schema validation\<close>. The required keys play no part:
  the right-hand side does not mention them. The function has no raising path, the
  failure is a field of the returned record.
\<close>

theorem validate_schema_non_object:
  "(\<forall>d. v \<noteq> JObject d) \<Longrightarrow>
   validate_schema v ks
     = \<lparr>valid = False, missing_keys = [], found_keys = [],
        error = Some ''Root must be an object for schema validation''\<rparr>"
  by (cases v) (simp_all add: validate_schema_def)

theorem validate_schema_non_object_witness:
  "(\<forall>d. JArray [JInt 1, JInt 2] \<noteq> JObject d)
   \<and> validate_schema (JArray [JInt 1, JInt 2]) [''a'']
       = \<lparr>valid = False, missing_keys = [], found_keys = [],
          error = Some ''Root must be an object for schema validation''\<rparr>"
  using validate_schema_non_object [of "JArray [JInt 1, JInt 2]" "[''a'']"] by simp

section \<open>Properties of analyze\_structure\<close>

lemma map_of_counter_add:
  "map_of (counter_add k n c) k' = (if k' = k then Some (counter_get c k + n) else map_of c k')"
  by (induction c) (auto simp: counter_get_def)

lemma counter_get_add:
  "counter_get (counter_add k n c) k' = counter_get c k' + (if k' = k then n else 0)"
  by (simp add: counter_get_def map_of_counter_add)

lemma keys_counter_add: "fst ` set (counter_add k n c) = insert k (fst ` set c)"
  by (induction k n c rule: counter_add.induct) auto

lemma distinct_counter_add:
  "distinct (map fst c) \<Longrightarrow> distinct (map fst (counter_add k n c))"
  by (induction c) (auto simp: keys_counter_add)

lemma distinct_counter_update:
  "distinct (map fst a) \<Longrightarrow> distinct (map fst (counter_update a b))"
  by (induction b arbitrary: a) (auto simp: distinct_counter_add)

lemma keys_counter_update: "fst ` set (counter_update a b) = fst ` set a \<union> fst ` set b"
  by (induction a b rule: counter_update.induct) (simp_all add: keys_counter_add)

lemma counter_get_absent: "k \<notin> fst ` set c \<Longrightarrow> counter_get c k = 0"
proof -
  assume "k \<notin> fst ` set c"
  then have "map_of c k = None" by (simp add: map_of_eq_None_iff)
  then show ?thesis by (simp add: counter_get_def)
qed

lemma counter_get_update:
  "distinct (map fst b) \<Longrightarrow> counter_get (counter_update a b) k = counter_get a k + counter_get b k"
proof (induction b arbitrary: a)
  case Nil
  show ?case by (simp add: counter_get_def)
next
  case (Cons e b)
  obtain k' n where e: "e = (k', n)" by (cases e)
  from Cons.prems e have d: "distinct (map fst b)" and k': "k' \<notin> fst ` set b" by auto
  have "counter_get (e # b) k = (if k = k' then n else counter_get b k)"
    by (simp add: e counter_get_def)
  moreover have "counter_get b k' = 0" using k' by (rule counter_get_absent)
  ultimately show ?case using Cons.IH [OF d] by (simp add: e counter_get_add)
qed

lemma scalar_total_add:
  "scalar_total (counter_add k n c) = scalar_total c + (if k = ''array'' then 0 else n)"
  by (induction c) (auto simp: scalar_total_def)

lemma scalar_total_update:
  "scalar_total (counter_update a b) = scalar_total a + scalar_total b"
proof (induction b arbitrary: a)
  case Nil
  show ?case by (simp add: scalar_total_def)
next
  case (Cons e b)
  obtain k n where e: "e = (k, n)" by (cases e)
  have "scalar_total (e # b) = (if k = ''array'' then 0 else n) + scalar_total b"
    by (simp add: e scalar_total_def)
  then show ?case using Cons.IH by (simp add: e scalar_total_add)
qed

lemma scalar_total_Nil: "scalar_total [] = 0"
  by (simp add: scalar_total_def)

lemma scalar_total_single: "scalar_total [(k, n)] = (if k = ''array'' then 0 else n)"
  by (simp add: scalar_total_def)

lemma counter_get_Nil: "counter_get [] k = 0"
  by (simp add: counter_get_def)

lemma counter_get_single: "counter_get [(k', n)] k = (if k = k' then n else 0)"
  by (simp add: counter_get_def)

lemmas analyze_induct = recursive_analyze_analyze_items_analyze_elems.induct

lemma analyze_distinct:
  "distinct (map fst (type_counts (recursive_analyze v depth maxd)))"
  "distinct (map fst (type_counts st)) \<Longrightarrow> distinct (map fst (type_counts (analyze_items d depth maxd st)))"
  "distinct (map fst (type_counts st)) \<Longrightarrow> distinct (map fst (type_counts (analyze_elems xs depth maxd st)))"
  for v :: "'f jvalue" and d :: "(string \<times> 'f jvalue) list" and xs :: "'f jvalue list"
  by (induction v depth maxd and d depth maxd st and xs depth maxd st rule: analyze_induct)
     (simp_all add: new_stats_def merge_child_def distinct_counter_update split: jvalue.splits)

lemma analyze_arrays:
  "arrays (recursive_analyze v depth maxd) = int (count_nodes is_list v)"
  "arrays (analyze_items d depth maxd st) = arrays st + int (\<Sum>kv\<leftarrow>d. count_nodes is_list (snd kv))"
  "arrays (analyze_elems xs depth maxd st) = arrays st + int (\<Sum>x\<leftarrow>xs. count_nodes is_list x)"
  for v :: "'f jvalue" and d :: "(string \<times> 'f jvalue) list" and xs :: "'f jvalue list"
  by (induction v depth maxd and d depth maxd st and xs depth maxd st rule: analyze_induct)
     (simp_all add: new_stats_def merge_child_def split: jvalue.splits)

lemma analyze_objects:
  "objects (recursive_analyze v depth maxd) = int (count_nodes is_dict v)"
  "objects (analyze_items d depth maxd st) = objects st + int (\<Sum>kv\<leftarrow>d. count_nodes is_dict (snd kv))"
  "objects (analyze_elems xs depth maxd st) = objects st + int (\<Sum>x\<leftarrow>xs. count_nodes is_dict x)"
  for v :: "'f jvalue" and d :: "(string \<times> 'f jvalue) list" and xs :: "'f jvalue list"
  by (induction v depth maxd and d depth maxd st and xs depth maxd st rule: analyze_induct)
     (simp_all add: new_stats_def merge_child_def split: jvalue.splits)

lemma analyze_null_values:
  "null_values (recursive_analyze v depth maxd) = int (null_fields v)"
  "null_values (analyze_items d depth maxd st) = null_values st + int (\<Sum>kv\<leftarrow>d. (if snd kv = JNull then 1 else 0) + null_fields (snd kv))"
  "null_values (analyze_elems xs depth maxd st) = null_values st + int (\<Sum>x\<leftarrow>xs. null_fields x)"
  for v :: "'f jvalue" and d :: "(string \<times> 'f jvalue) list" and xs :: "'f jvalue list"
  by (induction v depth maxd and d depth maxd st and xs depth maxd st rule: analyze_induct)
     (simp_all add: new_stats_def merge_child_def split: jvalue.splits)

lemma analyze_scalar_total:
  "scalar_total (type_counts (recursive_analyze v depth maxd)) = int (count_nodes is_scalar v)"
  "scalar_total (type_counts (analyze_items d depth maxd st)) = scalar_total (type_counts st) + int (\<Sum>kv\<leftarrow>d. count_nodes is_scalar (snd kv))"
  "scalar_total (type_counts (analyze_elems xs depth maxd st)) = scalar_total (type_counts st) + int (\<Sum>x\<leftarrow>xs. count_nodes is_scalar x)"
  for v :: "'f jvalue" and d :: "(string \<times> 'f jvalue) list" and xs :: "'f jvalue list"
  by (induction v depth maxd and d depth maxd st and xs depth maxd st rule: analyze_induct)
     (simp_all add: new_stats_def merge_child_def scalar_total_add scalar_total_update scalar_total_Nil scalar_total_single split: jvalue.splits)

lemma analyze_array_label:
  "counter_get (type_counts (recursive_analyze v depth maxd)) ''array'' = int (count_nodes is_list v)"
  "counter_get (type_counts (analyze_items d depth maxd st)) ''array'' = counter_get (type_counts st) ''array'' + int (\<Sum>kv\<leftarrow>d. count_nodes is_list (snd kv))"
  "counter_get (type_counts (analyze_elems xs depth maxd st)) ''array'' = counter_get (type_counts st) ''array'' + int (\<Sum>x\<leftarrow>xs. count_nodes is_list x)"
  for v :: "'f jvalue" and d :: "(string \<times> 'f jvalue) list" and xs :: "'f jvalue list"
  by (induction v depth maxd and d depth maxd st and xs depth maxd st rule: analyze_induct)
     (simp_all add: new_stats_def merge_child_def counter_get_add counter_get_update analyze_distinct(1) counter_get_Nil counter_get_single split: jvalue.splits)

lemma analyze_counted:
  "counted (recursive_analyze v depth maxd) = int (count_nodes (\<lambda>_. True) v)"
  "counted (analyze_items d depth maxd st) = counted st + int (\<Sum>kv\<leftarrow>d. count_nodes (\<lambda>_. True) (snd kv))"
  "counted (analyze_elems xs depth maxd st) = counted st + int (\<Sum>x\<leftarrow>xs. count_nodes (\<lambda>_. True) x)"
  for v :: "'f jvalue" and d :: "(string \<times> 'f jvalue) list" and xs :: "'f jvalue list"
  by (induction v depth maxd and d depth maxd st and xs depth maxd st rule: analyze_induct)
     (simp_all add: counted_def new_stats_def merge_child_def scalar_total_add scalar_total_update scalar_total_Nil scalar_total_single split: jvalue.splits)

lemma merge_child_max_depth: "max_depth st \<le> max_depth (merge_child st child)"
  "max_depth child \<le> max_depth (merge_child st child)"
  by (simp_all add: merge_child_def)

lemma analyze_items_max_depth: "max_depth st \<le> max_depth (analyze_items d depth maxd st)"
proof (induction d arbitrary: st)
  case Nil
  show ?case by simp
next
  case (Cons e d)
  obtain k v where e: "e = (k, v)" by (cases e)
  let ?st = "case v of JNull \<Rightarrow> st\<lparr>null_values := null_values st + 1\<rparr> | _ \<Rightarrow> st"
  have "max_depth ?st = max_depth st" by (simp split: jvalue.splits)
  then have "max_depth st \<le> max_depth (merge_child ?st (recursive_analyze v (depth + 1) (max maxd (depth + 1))))"
    using merge_child_max_depth(1) [of ?st] by simp
  also have "\<dots> \<le> max_depth (analyze_items (e # d) depth maxd st)"
    using Cons.IH by (simp add: e)
  finally show ?case .
qed

lemma analyze_elems_max_depth: "max_depth st \<le> max_depth (analyze_elems xs depth maxd st)"
proof (induction xs arbitrary: st)
  case Nil
  show ?case by simp
next
  case (Cons x xs)
  have "max_depth st \<le> max_depth (merge_child st (recursive_analyze x (depth + 1) (max maxd (depth + 1))))"
    by (rule merge_child_max_depth)
  also have "\<dots> \<le> max_depth (analyze_elems (x # xs) depth maxd st)"
    using Cons.IH by simp
  finally show ?case .
qed

lemma recursive_analyze_max_depth: "maxd \<le> max_depth (recursive_analyze v depth maxd)"
proof (cases v)
  case (JArray xs)
  let ?st = "(new_stats maxd)\<lparr>arrays := arrays (new_stats maxd) + 1,
    type_counts := counter_add ''array'' 1 (type_counts (new_stats maxd))\<rparr>"
  have "max_depth ?st = maxd" by (simp add: new_stats_def)
  then show ?thesis
    using analyze_elems_max_depth [of ?st xs depth maxd] JArray by simp
next
  case (JObject d)
  let ?st = "(new_stats maxd)\<lparr>objects := objects (new_stats maxd) + 1,
    total_keys := total_keys (new_stats maxd) + int (length d)\<rparr>"
  have "max_depth ?st = maxd" by (simp add: new_stats_def)
  then show ?thesis
    using analyze_items_max_depth [of ?st d depth maxd] JObject by simp
qed (simp_all add: new_stats_def)

lemma analyze_elems_child_depth:
  "max maxd (depth + 1) \<le> max_depth (analyze_elems (x # xs) depth maxd st)"
proof -
  let ?child = "recursive_analyze x (depth + 1) (max maxd (depth + 1))"
  have "max maxd (depth + 1) \<le> max_depth ?child" by (rule recursive_analyze_max_depth)
  also have "\<dots> \<le> max_depth (merge_child st ?child)" by (rule merge_child_max_depth)
  also have "\<dots> \<le> max_depth (analyze_elems (x # xs) depth maxd st)"
    using analyze_elems_max_depth [of "merge_child st ?child" xs depth maxd] by simp
  finally show ?thesis .
qed

lemma analyze_items_child_depth:
  "max maxd (depth + 1) \<le> max_depth (analyze_items ((k, v) # d) depth maxd st)"
proof -
  let ?child = "recursive_analyze v (depth + 1) (max maxd (depth + 1))"
  let ?st = "case v of JNull \<Rightarrow> st\<lparr>null_values := null_values st + 1\<rparr> | _ \<Rightarrow> st"
  have "max maxd (depth + 1) \<le> max_depth ?child" by (rule recursive_analyze_max_depth)
  also have "\<dots> \<le> max_depth (merge_child ?st ?child)" by (rule merge_child_max_depth)
  also have "\<dots> \<le> max_depth (analyze_items ((k, v) # d) depth maxd st)"
    using analyze_items_max_depth [of "merge_child ?st ?child" d depth maxd] by simp
  finally show ?thesis .
qed

lemma max_depth_zero_iff:
  "max_depth (analyze_structure v) = 0 \<longleftrightarrow> is_scalar v \<or> v = JObject [] \<or> v = JArray []"
proof (cases v)
  case (JArray xs)
  show ?thesis
  proof (cases xs)
    case Nil
    with JArray show ?thesis by (simp add: analyze_structure_def new_stats_def)
  next
    case (Cons x xs')
    have "1 \<le> max_depth (analyze_structure v)"
      unfolding analyze_structure_def JArray Cons recursive_analyze.simps
      using analyze_elems_child_depth [of 0 0 x xs'] by simp
    with JArray Cons show ?thesis by simp
  qed
next
  case (JObject d)
  show ?thesis
  proof (cases d)
    case Nil
    with JObject show ?thesis by (simp add: analyze_structure_def new_stats_def)
  next
    case (Cons e d')
    obtain k x where e: "e = (k, x)" by (cases e)
    have "1 \<le> max_depth (analyze_structure v)"
      unfolding analyze_structure_def JObject Cons e recursive_analyze.simps
      using analyze_items_child_depth [of 0 0 k x d'] by simp
    with JObject Cons show ?thesis by simp
  qed
qed (simp_all add: analyze_structure_def new_stats_def)

lemma max_depth_one: "is_scalar x \<Longrightarrow> max_depth (analyze_structure (JArray [x])) = 1"
  by (cases x) (simp_all add: analyze_structure_def new_stats_def merge_child_def)

lemma analyze_labels:
  "fst ` set (type_counts (recursive_analyze v depth maxd))
     \<subseteq> {''array'', ''str'', ''int'', ''float'', ''bool'', ''NoneType''}"
  "fst ` set (type_counts st) \<subseteq> {''array'', ''str'', ''int'', ''float'', ''bool'', ''NoneType''}
   \<Longrightarrow> fst ` set (type_counts (analyze_items d depth maxd st))
     \<subseteq> {''array'', ''str'', ''int'', ''float'', ''bool'', ''NoneType''}"
  "fst ` set (type_counts st) \<subseteq> {''array'', ''str'', ''int'', ''float'', ''bool'', ''NoneType''}
   \<Longrightarrow> fst ` set (type_counts (analyze_elems xs depth maxd st))
     \<subseteq> {''array'', ''str'', ''int'', ''float'', ''bool'', ''NoneType''}"
  for v :: "'f jvalue" and d :: "(string \<times> 'f jvalue) list" and xs :: "'f jvalue list"
  by (induction v depth maxd and d depth maxd st and xs depth maxd st rule: analyze_induct)
     (simp_all add: new_stats_def merge_child_def keys_counter_update split: jvalue.splits)

lemma counter_get_nonzero: "counter_get c k \<noteq> 0 \<Longrightarrow> k \<in> fst ` set c"
  using counter_get_absent [of k c] by blast

text \<open>
  Claim C3, as the spec words it: the array \<^verbatim>\<open>[null]\<close> has count 1 under the label
  \<^verbatim>\<open>null\<close>. The label the code gives a scalar is the name of its Python type, which
  for \<^verbatim>\<open>None\<close> is \<^verbatim>\<open>NoneType\<close>, so the count under \<^verbatim>\<open>null\<close> is not 1.
\<close>

theorem type_counts_null_label_counterexample:
  "counter_get (type_counts (analyze_structure (JArray [JNull]))) ''null'' \<noteq> 1"
  by (simp add: analyze_structure_def new_stats_def merge_child_def counter_get_def)

text \<open>
  Claim C3, amended. The object \<^verbatim>\<open>{"x": null}\<close> has \<open>null_values = 1\<close>; the array
  \<^verbatim>\<open>[null]\<close> has \<open>null_values = 0\<close>, count 1 under the label \<^verbatim>\<open>NoneType\<close> and count
  0 under \<^verbatim>\<open>null\<close>. In general \<open>null_values\<close> is the number of object members whose
  value is null: a null that is an element of an array adds nothing to it.
\<close>

theorem null_values_asymmetry:
  "null_values (analyze_structure (JObject [(''x'', JNull)])) = 1
   \<and> null_values (analyze_structure (JArray [JNull])) = 0
   \<and> counter_get (type_counts (analyze_structure (JArray [JNull]))) ''NoneType'' = 1
   \<and> counter_get (type_counts (analyze_structure (JArray [JNull]))) ''null'' = 0
   \<and> null_values (analyze_structure v) = int (null_fields v)"
  by (simp add: analyze_null_values(1) analyze_structure_def [of v])
     (simp add: analyze_structure_def new_stats_def merge_child_def counter_get_def)

text \<open>
  Claim C4, as the spec words it: every label with a nonzero count is one of
  \<^verbatim>\<open>object\<close>, \<^verbatim>\<open>array\<close>, \<^verbatim>\<open>string\<close>, \<^verbatim>\<open>number\<close>, \<^verbatim>\<open>bool\<close>, \<^verbatim>\<open>null\<close>. The root
  string \<^verbatim>\<open>"a"\<close> is counted under \<^verbatim>\<open>str\<close>, which is none of them.
\<close>

theorem type_counts_labels_counterexample:
  "counter_get (type_counts (analyze_structure (JStr ''a''))) ''str'' \<noteq> 0
   \<and> ''str'' \<notin> {''object'', ''array'', ''string'', ''number'', ''bool'', ''null''}"
  by (simp add: analyze_structure_def new_stats_def counter_get_def)

text \<open>
  Claim C4, amended. Every label with a nonzero count in \<open>type_counts\<close> is one of
  \<^verbatim>\<open>array\<close>, \<^verbatim>\<open>str\<close>, \<^verbatim>\<open>int\<close>, \<^verbatim>\<open>float\<close>, \<^verbatim>\<open>bool\<close>, \<^verbatim>\<open>NoneType\<close>: the fixed
  label of a list and the Python type names of the scalars.
\<close>

theorem type_counts_labels:
  "counter_get (type_counts (analyze_structure v)) k \<noteq> 0 \<Longrightarrow>
   k \<in> {''array'', ''str'', ''int'', ''float'', ''bool'', ''NoneType''}"
  using counter_get_nonzero [of "type_counts (analyze_structure v)" k]
    analyze_labels(1) [of v 0 0]
  unfolding analyze_structure_def by blast

theorem type_counts_labels_witness:
  "counter_get (type_counts (analyze_structure (JArray [JNull]))) ''NoneType'' \<noteq> 0
   \<and> ''NoneType'' \<in> {''array'', ''str'', ''int'', ''float'', ''bool'', ''NoneType''}"
  using type_counts_labels [of "JArray [JNull]" "''NoneType''"]
  by (simp add: analyze_structure_def new_stats_def merge_child_def counter_get_def)

text \<open>
  Claim C5. \<open>max_depth\<close> is never negative; it is 0 exactly for a scalar, an empty object
  and an empty array; an array whose only element is a scalar has \<open>max_depth = 1\<close>.
\<close>

theorem max_depth_zero:
  "0 \<le> max_depth (analyze_structure v)
   \<and> (max_depth (analyze_structure v) = 0) = (is_scalar v \<or> v = JObject [] \<or> v = JArray [])
   \<and> (is_scalar x \<longrightarrow> max_depth (analyze_structure (JArray [x])) = 1)"
  for v x :: "'f jvalue"
  using recursive_analyze_max_depth [of 0 v 0] max_depth_zero_iff [of v] max_depth_one [of x]
  by (simp add: analyze_structure_def)

theorem max_depth_zero_witness:
  "is_scalar (JInt 7 :: unit jvalue)
   \<and> max_depth (analyze_structure (JArray [JInt 7 :: unit jvalue])) = 1"
  using max_depth_zero [of "JArray [JInt 7 :: unit jvalue]" "JInt 7"] by simp

text \<open>
  Claim C6. The counts of all labels except \<^verbatim>\<open>array\<close>, plus \<open>arrays\<close>, plus \<open>objects\<close>,
  add up to the number of nodes of the tree. Every array node is counted twice, in
  \<open>arrays\<close> and under the label \<^verbatim>\<open>array\<close>; every object node is counted in \<open>objects\<close>
  only, since the other labels count exactly the scalars. No label has two entries, so
  the sum over the entries is the sum over the labels.
\<close>

theorem node_count_double_count:
  "scalar_total (type_counts (analyze_structure v)) + arrays (analyze_structure v)
       + objects (analyze_structure v) = int (node_count v)
   \<and> arrays (analyze_structure v) = int (count_nodes is_list v)
   \<and> counter_get (type_counts (analyze_structure v)) ''array'' = int (count_nodes is_list v)
   \<and> objects (analyze_structure v) = int (count_nodes is_dict v)
   \<and> scalar_total (type_counts (analyze_structure v)) = int (count_nodes is_scalar v)
   \<and> distinct (map fst (type_counts (analyze_structure v)))"
  using analyze_counted(1) [of v 0 0]
  by (simp add: analyze_structure_def node_count_def counted_def analyze_arrays(1)
      analyze_array_label(1) analyze_objects(1) analyze_scalar_total(1) analyze_distinct(1))

section \<open>Properties of find\_duplicates\<close>

lemma seen_of_Nil: "seen_of [] = Map.empty"
  by (simp add: seen_of_def)

lemma seen_of_snoc_old: "k \<in> set ks \<Longrightarrow> seen_of (ks @ [k]) = seen_of ks"
  by (auto simp: seen_of_def fun_eq_iff takeWhile_append1)

lemma takeWhile_absent:
  "k \<notin> set ks \<Longrightarrow> takeWhile (\<lambda>k'. k' \<noteq> k) (ks @ ys) = ks @ takeWhile (\<lambda>k'. k' \<noteq> k) ys"
  by (rule takeWhile_append2) auto

lemma seen_of_snoc_new: "k \<notin> set ks \<Longrightarrow> seen_of (ks @ [k]) = (seen_of ks)(k \<mapsto> length ks)"
  by (auto simp: seen_of_def fun_eq_iff takeWhile_append1 takeWhile_absent)

lemma array_records_alt:
  "array_records lib xs p = map (record_at lib xs p) (filter (repeat_at lib xs) [0..<length xs])"
  unfolding array_records_def Let_def
  by (rule map_cong [OF filter_cong]) (simp_all add: record_at_def repeat_at_def)

lemma check_loop_closed:
  "check_loop lib p (length pre) rest (seen_of (map (item_str lib) pre)) ds
     = ds @ map (record_at lib (pre @ rest) p)
              (filter (repeat_at lib (pre @ rest)) [length pre..<length (pre @ rest)])"
proof (induction rest arbitrary: pre ds)
  case Nil
  show ?case by simp
next
  case (Cons item rest)
  let ?k = "item_str lib item"
  let ?ks = "map (item_str lib) pre"
  let ?xs = "pre @ item # rest"
  have upt: "[length pre..<length ?xs] = length pre # [Suc (length pre)..<length ?xs]"
    by (rule upt_conv_Cons) simp
  have rep: "repeat_at lib ?xs (length pre) = (?k \<in> set ?ks)"
    by (simp add: repeat_at_def)
  have IH: "check_loop lib p (Suc (length pre)) rest (seen_of (?ks @ [?k])) ds'
      = ds' @ map (record_at lib ?xs p) (filter (repeat_at lib ?xs) [Suc (length pre)..<length ?xs])"
    for ds'
    using Cons.IH [of "pre @ [item]" ds'] by (simp del: upt_Suc)
  show ?case
  proof (cases "?k \<in> set ?ks")
    case True
    then have seen: "seen_of ?ks ?k = Some (length (takeWhile (\<lambda>k. k \<noteq> ?k) ?ks))"
      by (simp add: seen_of_def)
    have rec: "record_at lib ?xs p (length pre)
        = \<lparr>path = p, dup_value = item, indices = [length (takeWhile (\<lambda>k. k \<noteq> ?k) ?ks), length pre]\<rparr>"
      using True by (simp add: record_at_def takeWhile_append1)
    have "check_loop lib p (length pre) (item # rest) (seen_of ?ks) ds
        = check_loop lib p (Suc (length pre)) rest (seen_of (?ks @ [?k]))
            (ds @ [record_at lib ?xs p (length pre)])"
      using True by (simp add: seen rec seen_of_snoc_old)
    also have "\<dots> = (ds @ [record_at lib ?xs p (length pre)])
        @ map (record_at lib ?xs p) (filter (repeat_at lib ?xs) [Suc (length pre)..<length ?xs])"
      by (rule IH)
    also have "\<dots> = ds @ map (record_at lib ?xs p) (filter (repeat_at lib ?xs) [length pre..<length ?xs])"
      using True by (simp only: upt filter.simps rep if_True list.map append_assoc append_Cons append_Nil)
    finally show ?thesis .
  next
    case False
    then have seen: "seen_of ?ks ?k = None"
      by (simp add: seen_of_def)
    have "check_loop lib p (length pre) (item # rest) (seen_of ?ks) ds
        = check_loop lib p (Suc (length pre)) rest (seen_of (?ks @ [?k])) ds"
      using False by (simp add: seen seen_of_snoc_new)
    also have "\<dots> = ds
        @ map (record_at lib ?xs p) (filter (repeat_at lib ?xs) [Suc (length pre)..<length ?xs])"
      by (rule IH)
    also have "\<dots> = ds @ map (record_at lib ?xs p) (filter (repeat_at lib ?xs) [length pre..<length ?xs])"
      using False by (simp only: upt filter.simps rep if_False)
    finally show ?thesis .
  qed
qed

lemma check_array_closed:
  "check_array lib (JArray xs) p ds = ds @ array_records lib xs p"
  using check_loop_closed [of lib p "[]" xs ds]
  by (simp add: seen_of_Nil array_records_alt)

lemma path_str_AtIndex: "path_str steps @ CHR ''['' # str_nat i @ '']'' = path_str (steps @ [AtIndex i])"
  by (simp add: path_str_def)

lemma path_str_AtKey: "path_str steps @ CHR ''.'' # key = path_str (steps @ [AtKey key])"
  by (simp add: path_str_def)

lemma records_of_simps:
  "records_of lib [] = []"
  "records_of lib ((steps, xs) # as) = array_records lib xs (path_str steps) @ records_of lib as"
  "records_of lib (as @ bs) = records_of lib as @ records_of lib bs"
  by (simp_all add: records_of_def)

lemma traverse_preorder:
  "traverse lib v (path_str steps) ds = ds @ records_of lib (arrays_preorder steps v)"
  "traverse_items lib d (path_str steps) ds = ds @ records_of lib (arrays_in_items steps d)"
  "traverse_elems lib i xs (path_str steps) ds = ds @ records_of lib (arrays_in_elems steps i xs)"
  for v :: "'f jvalue" and d :: "(string \<times> 'f jvalue) list" and xs :: "'f jvalue list"
  by (induction steps v and steps d and steps i xs arbitrary: ds and ds and ds
      rule: arrays_preorder_arrays_in_items_arrays_in_elems.induct)
     (simp_all add: records_of_simps path_str_AtKey path_str_AtIndex check_array_closed
        del: check_array.simps)

lemma check_array_paths:
  "map path (check_array lib (JArray xs) p []) = replicate (length (check_array lib (JArray xs) p [])) p"
  by (simp add: check_array_closed array_records_alt record_at_def map_replicate_const comp_def
      del: check_array.simps)

lemma check_array_sorted:
  "sorted_wrt (<) (map (\<lambda>r. indices r ! 1) (check_array lib (JArray xs) p []))"
proof -
  have "map (\<lambda>r. indices r ! 1) (check_array lib (JArray xs) p [])
      = filter (repeat_at lib xs) [0..<length xs]"
    by (simp add: check_array_closed array_records_alt record_at_def comp_def
        del: check_array.simps)
  then show ?thesis by (simp add: sorted_wrt_filter)
qed

lemma find_duplicates_preorder:
  "find_duplicates lib v
     = concat (map (\<lambda>(steps, xs). check_array lib (JArray xs) (path_str steps) [])
                (arrays_preorder [] v))"
proof -
  have "find_duplicates lib v = traverse lib v (path_str []) []"
    by (simp add: find_duplicates_def path_str_def)
  also have "\<dots> = records_of lib (arrays_preorder [] v)"
    by (simp add: traverse_preorder(1))
  finally show ?thesis
    by (simp add: records_of_def check_array_closed del: check_array.simps)
qed

text \<open>
  Claim C1, as the spec words it: \<^verbatim>\<open>[1, 1, 1]\<close> gives exactly one record, for the
  indices 0 and 1, and none for 0 and 2. The loop appends a record at every item whose
  key is already in \<^verbatim>\<open>seen\<close>, so the item at index 2 gives a second record.
\<close>

theorem find_duplicates_triple_counterexample:
  "length (find_duplicates sample_lib (JArray [JInt 1, JInt 1, JInt 1])) \<noteq> 1
   \<and> \<lparr>path = ''root'', dup_value = JInt 1, indices = [0, 2]\<rparr>
       \<in> set (find_duplicates sample_lib (JArray [JInt 1, JInt 1, JInt 1]))"
  by (simp add: find_duplicates_def str_int_def str_nat.simps)

text \<open>
  Claim C1, amended. \<^verbatim>\<open>[1, 1, 1]\<close> gives exactly two records, both at \<^verbatim>\<open>root\<close>: the
  first for the indices 0 and 1, the second for the indices 0 and 2.
\<close>

theorem find_duplicates_triple:
  "find_duplicates lib (JArray [JInt 1, JInt 1, JInt 1])
     = [\<lparr>path = ''root'', dup_value = JInt 1, indices = [0, 1]\<rparr>,
        \<lparr>path = ''root'', dup_value = JInt 1, indices = [0, 2]\<rparr>]"
  by (simp add: find_duplicates_def str_int_def str_nat.simps)

text \<open>
  Claim C9. \<^verbatim>\<open>[1, 2, 1]\<close> gives exactly one record: path \<^verbatim>\<open>root\<close>, value 1, indices
  0 and 2. In general the records that an array adds are those of \<open>array_records\<close>: each
  item whose key occurred before is paired with the index of the first item with that
  key.
\<close>

theorem find_duplicates_first_occurrence:
  "find_duplicates lib (JArray [JInt 1, JInt 2, JInt 1])
     = [\<lparr>path = ''root'', dup_value = JInt 1, indices = [0, 2]\<rparr>]
   \<and> check_array lib (JArray xs) p ds = ds @ array_records lib xs p"
proof -
  have "find_duplicates lib (JArray [JInt 1, JInt 2, JInt 1])
      = [\<lparr>path = ''root'', dup_value = JInt 1, indices = [0, 2]\<rparr>]"
    by (simp add: find_duplicates_def str_int_def str_nat.simps)
  moreover have "check_array lib (JArray xs) p ds = ds @ array_records lib xs p"
    by (rule check_array_closed)
  ultimately show ?thesis by (rule conjI)
qed

text \<open>
  Claim C7. The result of \<^verbatim>\<open>find_duplicates\<close> is the concatenation, over the arrays of
  the tree in pre-order, of the records of each array, reported under the text of the
  array's position: \<^verbatim>\<open>root\<close> followed by \<^verbatim>\<open>[index]\<close> for a step into an array element
  and \<^verbatim>\<open>.key\<close> for a step into an object member. The records of one array come with
  strictly increasing second index, and all of them carry the path of that array.
\<close>

theorem find_duplicates_order:
  "find_duplicates lib v
     = concat (map (\<lambda>(steps, xs). check_array lib (JArray xs) (path_str steps) [])
                (arrays_preorder [] v))
   \<and> sorted_wrt (<) (map (\<lambda>r. indices r ! 1) (check_array lib (JArray xs) p []))
   \<and> map path (check_array lib (JArray xs) p [])
       = replicate (length (check_array lib (JArray xs) p [])) p"
  using find_duplicates_preorder [of lib v] check_array_sorted [of lib xs p]
    check_array_paths [of lib xs p]
  by (simp del: check_array.simps)

end
